theory Spec2Isabelle
  imports Main "HOL-Library.Sublist"
begin

section \<open>The incidents cog of the bot: \<^verbatim>\<open>bot/cogs/moderation/incidents.py\<close>\<close>

subsection \<open>Constants read from \<^verbatim>\<open>bot.constants\<close>\<close>

text \<open>
  The module imports \<^verbatim>\<open>Channels\<close>, \<^verbatim>\<open>Emojis\<close> and \<^verbatim>\<open>Roles\<close> from
  \<^verbatim>\<open>bot.constants\<close> and reads seven of their attributes. Their values are not part
  of the module, so they are a parameter of every definition that reads one. Identifiers
  are Python integers, emoji are Python strings.
\<close>

record constants =
  Channels_incidents :: int
  Emojis_incident_actioned :: string
  Emojis_incident_unactioned :: string
  Emojis_incident_investigating :: string
  Roles_moderators :: int
  Roles_admins :: int
  Roles_owners :: int

subsection \<open>The \<^verbatim>\<open>Signal\<close> enumeration\<close>

datatype Signal = ACTIONED | NOT_ACTIONED | INVESTIGATING

fun Signal_value :: "constants \<Rightarrow> Signal \<Rightarrow> string" where
  "Signal_value c ACTIONED = Emojis_incident_actioned c"
| "Signal_value c NOT_ACTIONED = Emojis_incident_unactioned c"
| "Signal_value c INVESTIGATING = Emojis_incident_investigating c"

text \<open>
  Iterating a Python \<^verbatim>\<open>Enum\<close> class yields its members in definition order. A name whose
  value equals the value of an earlier name is an alias of that member, not a member of
  its own, and iteration leaves it out. \<open>enum_members\<close> processes the names of a class body
  in order, as the metaclass does: \<open>acc\<close> holds the members defined so far.
\<close>

fun enum_members :: "('n \<Rightarrow> 'v) \<Rightarrow> 'n list \<Rightarrow> 'n list \<Rightarrow> 'n list" where
  "enum_members v acc [] = acc"
| "enum_members v acc (n # ns) =
     (if v n \<in> v ` set acc then enum_members v acc ns
      else enum_members v (acc @ [n]) ns)"

definition Signal_members :: "constants \<Rightarrow> Signal list" where
  "Signal_members c = enum_members (Signal_value c) [] [ACTIONED, NOT_ACTIONED, INVESTIGATING]"

definition ALLOWED_ROLES :: "constants \<Rightarrow> int set" where
  "ALLOWED_ROLES c = {Roles_moderators c, Roles_admins c, Roles_owners c}"

definition ALLOWED_EMOJI :: "constants \<Rightarrow> string set" where
  "ALLOWED_EMOJI c = set (map (Signal_value c) (Signal_members c))"

subsection \<open>Messages\<close>

text \<open>
  Of a \<^verbatim>\<open>discord.Reaction\<close> the module reads \<^verbatim>\<open>str(reaction.emoji)\<close> and
  \<^verbatim>\<open>reaction.me\<close>; of a \<^verbatim>\<open>discord.Message\<close> it reads \<^verbatim>\<open>channel.id\<close>,
  \<^verbatim>\<open>author.bot\<close>, \<^verbatim>\<open>content\<close>, \<^verbatim>\<open>pinned\<close> and \<^verbatim>\<open>reactions\<close>. The field
  \<open>emoji\<close> holds the string form of the emoji, \<open>msg_id\<close> is \<^verbatim>\<open>message.id\<close>.
\<close>

record reaction =
  emoji :: string
  me :: bool

record message =
  msg_id :: int
  channel_id :: int
  author_bot :: bool
  content :: string
  pinned :: bool
  reactions :: "reaction list"

text \<open>Python's \<^verbatim>\<open>str.startswith\<close> with a single prefix.\<close>

definition startswith :: "string \<Rightarrow> string \<Rightarrow> bool" where
  "startswith s p = (take (length p) s = p)"

subsection \<open>The classification helpers\<close>

definition is_incident :: "constants \<Rightarrow> message \<Rightarrow> bool" where
  "is_incident c message =
     (let conditions =
        [ channel_id message = Channels_incidents c,
          \<not> author_bot message,
          \<not> startswith (content message) ''#'',
          \<not> pinned message ]
      in list_all id conditions)"

definition own_reactions :: "message \<Rightarrow> string set" where
  "own_reactions message = set (map emoji (filter me (reactions message)))"

definition has_signals :: "constants \<Rightarrow> message \<Rightarrow> bool" where
  "has_signals c message =
     (let missing_signals = ALLOWED_EMOJI c - own_reactions message
      in missing_signals = {})"

subsection \<open>Exceptions, outcomes and the trace of a coroutine\<close>

text \<open>
  The exceptions the platform calls of this module can raise. All of them derive from
  Python's \<^verbatim>\<open>Exception\<close> except \<^verbatim>\<open>asyncio.CancelledError\<close>, which derives from
  \<^verbatim>\<open>BaseException\<close> only (the module needs Python 3.8 for its \<^verbatim>\<open>f"{limit=}"\<close>).
\<close>

datatype exn =
  NotFound | Forbidden | HTTPException | InvalidArgument | ClientError | AttributeError
  | CancelledError

fun isinstance_Exception :: "exn \<Rightarrow> bool" where
  "isinstance_Exception CancelledError = False"
| "isinstance_Exception _ = True"

text \<open>
  A coroutine returns a value, raises, or never resumes from an \<^verbatim>\<open>await\<close>.
\<close>

datatype 'a outcome = Returned 'a | Raised exn | Stalled

datatype coroutine = Crawl_incidents

datatype log_record =
  Skipping_emoji Signal
  | Adding_reaction Signal
  | Crawling_messages nat nat
  | Skipping_not_incident
  | Skipping_has_signals
  | Crawl_finished
  | Resolving_message int
  | Found_in_cache
  | Not_found_fetching
  | Failed_to_fetch exn
  | Fetched_successfully

text \<open>
  What a coroutine of the module does besides computing, in the order in which it does it:
  the \<^verbatim>\<open>log.debug\<close> records it writes and the calls it makes on the bot, the channel
  and the message. An awaited call is one event: the coroutine goes on to its next
  statement only when the call has completed, so an event that follows a call in a trace
  was issued after that call completed.
\<close>

datatype event =
  Log log_record
  | Wait_until_guild_available
  | Get_channel int
  | History nat
  | Add_reaction int string
  | Sleep nat
  | Get_message int
  | Fetch_message int
  | Create_task coroutine

fun is_Add_reaction :: "event \<Rightarrow> bool" where
  "is_Add_reaction (Add_reaction i e) = True"
| "is_Add_reaction _ = False"

fun is_Sleep :: "event \<Rightarrow> bool" where
  "is_Sleep (Sleep n) = True"
| "is_Sleep _ = False"

fun is_Log :: "event \<Rightarrow> bool" where
  "is_Log (Log r) = True"
| "is_Log _ = False"

subsection \<open>The platform\<close>

text \<open>
  \<^verbatim>\<open>discord.Message.add_reaction\<close>: the call raises, or it completes, and then the
  message object carries some list of reactions (the library updates the object from the
  gateway while the coroutine is suspended). The answer of the platform is a parameter.
\<close>

type_synonym add_reaction = "message \<Rightarrow> string \<Rightarrow> exn + reaction list"

text \<open>
  A \<^verbatim>\<open>discord.TextChannel\<close>: \<^verbatim>\<open>history(limit=n)\<close> raises or yields the \<open>n\<close> most recent
  messages, newest first; \<^verbatim>\<open>fetch_message(id)\<close> raises or returns a message.
\<close>

record channel =
  history_raises :: "exn option"
  channel_messages :: "message list"
  fetch_message :: "int \<Rightarrow> exn + message"

definition history :: "channel \<Rightarrow> nat \<Rightarrow> exn + message list" where
  "history ch limit =
     (case history_raises ch of
        Some e \<Rightarrow> Inl e
      | None \<Rightarrow> Inr (take limit (channel_messages ch)))"

text \<open>
  Modelled from the spec: \<^verbatim>\<open>bot.bot.Bot\<close> is not among the sources. Its
  \<^verbatim>\<open>wait_until_guild_available\<close> suspends until the guild cache is ready and has no
  timeout, so the caller stalls for good when readiness never comes: \<open>guild_available\<close>
  says whether it comes. \<open>get_message\<close> is the cache lookup
  \<^verbatim>\<open>_connection._get_message\<close>, \<open>get_channel\<close> is \<^verbatim>\<open>get_channel\<close>; both answer
  \<^verbatim>\<open>None\<close> for an identifier they do not know.
\<close>

record Bot =
  guild_available :: bool
  get_message :: "int \<Rightarrow> message option"
  get_channel :: "int \<Rightarrow> channel option"

subsection \<open>\<^verbatim>\<open>add_signals\<close>\<close>

fun add_signals_loop ::
  "constants \<Rightarrow> add_reaction \<Rightarrow> string set \<Rightarrow> message \<Rightarrow> Signal list
     \<Rightarrow> event list \<times> message outcome" where
  "add_signals_loop c react existing_reacts incident [] = ([], Returned incident)"
| "add_signals_loop c react existing_reacts incident (signal_emoji # rest) =
     (if Signal_value c signal_emoji \<in> existing_reacts then
        apfst ((#) (Log (Skipping_emoji signal_emoji)))
          (add_signals_loop c react existing_reacts incident rest)
      else
        (case react incident (Signal_value c signal_emoji) of
           Inl e \<Rightarrow>
             ([Log (Adding_reaction signal_emoji),
               Add_reaction (msg_id incident) (Signal_value c signal_emoji)], Raised e)
         | Inr rs \<Rightarrow>
             apfst ((@) [Log (Adding_reaction signal_emoji),
                         Add_reaction (msg_id incident) (Signal_value c signal_emoji)])
               (add_signals_loop c react existing_reacts (incident\<lparr>reactions := rs\<rparr>) rest)))"

text \<open>
  The coroutine returns \<^verbatim>\<open>None\<close>; the model returns the message object as the calls
  left it.
\<close>

definition add_signals :: "constants \<Rightarrow> add_reaction \<Rightarrow> message \<Rightarrow> event list \<times> message outcome" where
  "add_signals c react incident =
     (let existing_reacts = own_reactions incident
      in add_signals_loop c react existing_reacts incident (Signal_members c))"

subsection \<open>The cog\<close>

text \<open>An \<^verbatim>\<open>asyncio.Lock\<close>, as far as the module can see it.\<close>

record lock =
  locked :: bool

text \<open>An \<^verbatim>\<open>asyncio.Task\<close>: the coroutine it runs and whether it has finished.\<close>

record task =
  coro :: coroutine
  finished :: bool

record Incidents =
  self_bot :: Bot
  event_lock :: lock
  crawl_task :: task

text \<open>
  \<^verbatim>\<open>Incidents.__init__\<close>: a fresh lock is unlocked; \<^verbatim>\<open>create_task\<close> schedules the
  crawl and hands back its task, which has not run yet.
\<close>

definition Incidents_init :: "Bot \<Rightarrow> Incidents \<times> event list" where
  "Incidents_init b =
     (\<lparr>self_bot = b, event_lock = \<lparr>locked = False\<rparr>,
       crawl_task = \<lparr>coro = Crawl_incidents, finished = False\<rparr>\<rparr>,
      [Create_task Crawl_incidents])"

fun crawl_loop ::
  "constants \<Rightarrow> add_reaction \<Rightarrow> nat \<Rightarrow> message list \<Rightarrow> event list \<times> unit outcome" where
  "crawl_loop c react sleep [] = ([Log Crawl_finished], Returned ())"
| "crawl_loop c react sleep (message # rest) =
     (if \<not> is_incident c message then
        apfst ((#) (Log Skipping_not_incident)) (crawl_loop c react sleep rest)
      else if has_signals c message then
        apfst ((#) (Log Skipping_has_signals)) (crawl_loop c react sleep rest)
      else
        (case add_signals c react message of
           (evs, Returned _) \<Rightarrow> apfst ((@) (evs @ [Sleep sleep])) (crawl_loop c react sleep rest)
         | (evs, Raised e) \<Rightarrow> (evs, Raised e)
         | (evs, Stalled) \<Rightarrow> (evs, Stalled)))"

definition crawl_incidents :: "constants \<Rightarrow> add_reaction \<Rightarrow> Incidents \<Rightarrow> event list \<times> unit outcome" where
  "crawl_incidents c react self =
     (if \<not> guild_available (self_bot self) then ([Wait_until_guild_available], Stalled)
      else
        let incidents = get_channel (self_bot self) (Channels_incidents c);
            limit = 50;
            sleep = 2;
            evs = [Wait_until_guild_available, Get_channel (Channels_incidents c),
                   Log (Crawling_messages limit sleep)]
        in (case incidents of
              None \<Rightarrow> (evs, Raised AttributeError)
            | Some ch \<Rightarrow>
                (case history ch limit of
                   Inl e \<Rightarrow> (evs @ [History limit], Raised e)
                 | Inr messages \<Rightarrow>
                     apfst ((@) (evs @ [History limit])) (crawl_loop c react sleep messages))))"

definition resolve_message :: "constants \<Rightarrow> Incidents \<Rightarrow> int \<Rightarrow> event list \<times> message option outcome" where
  "resolve_message c self message_id =
     (if \<not> guild_available (self_bot self) then ([Wait_until_guild_available], Stalled)
      else
        let evs = [Wait_until_guild_available, Log (Resolving_message message_id),
                   Get_message message_id]
        in (case get_message (self_bot self) message_id of
              Some message \<Rightarrow> (evs @ [Log Found_in_cache], Returned (Some message))
            | None \<Rightarrow>
                (case get_channel (self_bot self) (Channels_incidents c) of
                   None \<Rightarrow>
                     (evs @ [Log Not_found_fetching, Get_channel (Channels_incidents c),
                             Log (Failed_to_fetch AttributeError)], Returned None)
                 | Some ch \<Rightarrow>
                     (let evs' = evs @ [Log Not_found_fetching, Get_channel (Channels_incidents c),
                                        Fetch_message message_id]
                      in case fetch_message ch message_id of
                           Inl exc \<Rightarrow>
                             if isinstance_Exception exc
                             then (evs' @ [Log (Failed_to_fetch exc)], Returned None)
                             else (evs', Raised exc)
                         | Inr message \<Rightarrow>
                             (evs' @ [Log Fetched_successfully], Returned (Some message))))))"

text \<open>
  The listener returns \<^verbatim>\<open>None\<close>; as for \<open>add_signals\<close> the model returns the message
  object.
\<close>

definition on_message :: "constants \<Rightarrow> add_reaction \<Rightarrow> Incidents \<Rightarrow> message \<Rightarrow> event list \<times> message outcome" where
  "on_message c react self message =
     (if is_incident c message then add_signals c react message
      else ([], Returned message))"

subsection \<open>The specification's description of the traces\<close>

text \<open>
  What the specification says \<^verbatim>\<open>Add-signals\<close> does for one signal, given the set of own
  reactions computed before the loop and the identifier of the message: nothing but a log
  record when the emoji is in the set, one request otherwise.
\<close>

definition spec_signal_step :: "constants \<Rightarrow> string set \<Rightarrow> int \<Rightarrow> Signal \<Rightarrow> event list" where
  "spec_signal_step c own i s =
     (if Signal_value c s \<in> own then [Log (Skipping_emoji s)]
      else [Log (Adding_reaction s), Add_reaction i (Signal_value c s)])"

definition spec_add_signals :: "constants \<Rightarrow> message \<Rightarrow> event list" where
  "spec_add_signals c m =
     concat (map (spec_signal_step c (own_reactions m) (msg_id m))
               [ACTIONED, NOT_ACTIONED, INVESTIGATING])"

text \<open>
  The message after the requests for the given emoji have been made one after the other,
  each on the message as the completed request before it left it; \<open>None\<close> when one of
  them raised.
\<close>

fun spec_after :: "add_reaction \<Rightarrow> message \<Rightarrow> string list \<Rightarrow> message option" where
  "spec_after react m [] = Some m"
| "spec_after react m (e # es) =
     (case react m e of
        Inl x \<Rightarrow> None
      | Inr rs \<Rightarrow> spec_after react (m\<lparr>reactions := rs\<rparr>) es)"

text \<open>
  What the specification says the crawl does for one message of the stream, and for the
  whole stream.
\<close>

definition spec_crawl_step :: "constants \<Rightarrow> add_reaction \<Rightarrow> message \<Rightarrow> event list" where
  "spec_crawl_step c react m =
     (if \<not> is_incident c m then [Log Skipping_not_incident]
      else if has_signals c m then [Log Skipping_has_signals]
      else fst (add_signals c react m) @ [Sleep 2])"

definition spec_crawl :: "constants \<Rightarrow> add_reaction \<Rightarrow> message list \<Rightarrow> event list" where
  "spec_crawl c react ms =
     [Wait_until_guild_available, Get_channel (Channels_incidents c),
      Log (Crawling_messages 50 2), History 50]
     @ concat (map (spec_crawl_step c react) ms) @ [Log Crawl_finished]"

text \<open>
  The assumption of the specification's idempotence property: a request that completes
  leaves the bot's reaction with that emoji on the message, and takes none of the bot's
  reactions away. \<open>always_completes\<close> says that no request raises.
\<close>

definition records_own_reaction :: "add_reaction \<Rightarrow> bool" where
  "records_own_reaction react \<longleftrightarrow>
     (\<forall>m e rs. react m e = Inr rs \<longrightarrow>
        insert e (own_reactions m) \<subseteq> own_reactions (m\<lparr>reactions := rs\<rparr>))"

definition always_completes :: "add_reaction \<Rightarrow> bool" where
  "always_completes react \<longleftrightarrow> (\<forall>m e. \<exists>rs. react m e = Inr rs)"

subsection \<open>Concrete inputs\<close>

text \<open>
  A platform that behaves as the library does on a reaction of the bot's own: the
  reaction with that emoji gets its \<open>me\<close> flag, or is appended when there is none.
\<close>

fun add_own :: "string \<Rightarrow> reaction list \<Rightarrow> reaction list" where
  "add_own e [] = [\<lparr>emoji = e, me = True\<rparr>]"
| "add_own e (r # rs) = (if emoji r = e then r\<lparr>me := True\<rparr> # rs else r # add_own e rs)"

definition reacting :: add_reaction where
  "reacting m e = Inr (add_own e (reactions m))"

text \<open>A platform that refuses one emoji and behaves as \<open>reacting\<close> on the others.\<close>

definition refusing :: "string \<Rightarrow> add_reaction" where
  "refusing bad m e = (if e = bad then Inl Forbidden else reacting m e)"

definition consts0 :: constants where
  "consts0 = \<lparr>Channels_incidents = 100,
     Emojis_incident_actioned = ''A'', Emojis_incident_unactioned = ''U'',
     Emojis_incident_investigating = ''I'',
     Roles_moderators = 1, Roles_admins = 2, Roles_owners = 3\<rparr>"

definition report :: message where
  "report = \<lparr>msg_id = 7, channel_id = 100, author_bot = False, content = ''help'',
     pinned = False, reactions = [\<lparr>emoji = ''U'', me = True\<rparr>, \<lparr>emoji = ''A'', me = False\<rparr>]\<rparr>"

definition report_signalled :: message where
  "report_signalled = report\<lparr>reactions := [\<lparr>emoji = ''U'', me = True\<rparr>, \<lparr>emoji = ''A'', me = True\<rparr>,
                                       \<lparr>emoji = ''I'', me = True\<rparr>]\<rparr>"

definition channel0 :: channel where
  "channel0 = \<lparr>history_raises = None,
     channel_messages = [report, report\<lparr>msg_id := 6, pinned := True\<rparr>,
                         report_signalled\<lparr>msg_id := 4\<rparr>,
                         report\<lparr>msg_id := 5, channel_id := 9\<rparr>],
     fetch_message = (\<lambda>i. if i = 5 then Inr (report\<lparr>msg_id := 5\<rparr>) else Inl NotFound)\<rparr>"

definition bot0 :: Bot where
  "bot0 = \<lparr>guild_available = True,
     get_message = (\<lambda>i. if i = 7 then Some report else None),
     get_channel = (\<lambda>i. if i = 100 then Some channel0 else None)\<rparr>"

text \<open>The same constants with other role identifiers.\<close>

definition consts1 :: constants where
  "consts1 = consts0\<lparr>Roles_moderators := 10, Roles_admins := 20, Roles_owners := 30\<rparr>"

text \<open>A report with no text, as one that only carries an attachment, and no reaction yet.\<close>

definition attachment_only :: message where
  "attachment_only = \<lparr>msg_id = 8, channel_id = 100, author_bot = False, content = [],
     pinned = False, reactions = []\<rparr>"

definition cog0 :: Incidents where
  "cog0 = fst (Incidents_init bot0)"

subsection \<open>Facts about the enumeration\<close>

lemma enum_members_values:
  "v ` set (enum_members v acc ns) = v ` set acc \<union> v ` set ns"
  by (induction v acc ns rule: enum_members.induct) auto

lemma enum_members_distinct:
  "distinct (map v acc) \<Longrightarrow> distinct (map v (enum_members v acc ns))"
  by (induction v acc ns rule: enum_members.induct) auto

lemma enum_members_all:
  "distinct (map v ns) \<Longrightarrow> v ` set acc \<inter> v ` set ns = {} \<Longrightarrow> enum_members v acc ns = acc @ ns"
  by (induction v acc ns rule: enum_members.induct) auto

lemma Signal_members_values:
  "Signal_value c ` set (Signal_members c) =
     {Emojis_incident_actioned c, Emojis_incident_unactioned c, Emojis_incident_investigating c}"
  unfolding Signal_members_def enum_members_values by auto

lemma Signal_members_distinct: "distinct (map (Signal_value c) (Signal_members c))"
  unfolding Signal_members_def by (rule enum_members_distinct) simp

lemma Signal_members_three:
  assumes "distinct [Emojis_incident_actioned c, Emojis_incident_unactioned c,
                     Emojis_incident_investigating c]"
  shows "Signal_members c = [ACTIONED, NOT_ACTIONED, INVESTIGATING]"
  unfolding Signal_members_def using assms by (subst enum_members_all) auto

lemma ALLOWED_EMOJI_eq:
  "ALLOWED_EMOJI c =
     {Emojis_incident_actioned c, Emojis_incident_unactioned c, Emojis_incident_investigating c}"
  unfolding ALLOWED_EMOJI_def set_map by (rule Signal_members_values)

lemma startswith_hash:
  "startswith s ''#'' \<longleftrightarrow> s \<noteq> [] \<and> hd s = CHR ''#''"
  by (cases s) (auto simp: startswith_def)

subsection \<open>Facts about the loop of \<^verbatim>\<open>add_signals\<close>\<close>

lemma Signal_members_nonempty: "Signal_members c \<noteq> []"
  using Signal_members_values [of c] by auto

lemma loop_trace_prefix:
  "prefix (fst (add_signals_loop c react ex m ss))
          (concat (map (spec_signal_step c ex (msg_id m)) ss))"
proof (induction ss arbitrary: m)
  case Nil
  show ?case by simp
next
  case (Cons s ss)
  show ?case
  proof (cases "Signal_value c s \<in> ex")
    case True
    with Cons [of m] show ?thesis by (simp add: spec_signal_step_def)
  next
    case False
    show ?thesis
    proof (cases "react m (Signal_value c s)")
      case (Inl e)
      with False show ?thesis by (simp add: spec_signal_step_def)
    next
      case (Inr rs)
      with False Cons [of "m\<lparr>reactions := rs\<rparr>"] show ?thesis
        by (simp add: spec_signal_step_def)
    qed
  qed
qed

lemma loop_trace_returned:
  "snd (add_signals_loop c react ex m ss) = Returned m' \<Longrightarrow>
   fst (add_signals_loop c react ex m ss) = concat (map (spec_signal_step c ex (msg_id m)) ss)"
proof (induction ss arbitrary: m)
  case Nil
  show ?case by simp
next
  case (Cons s ss)
  show ?case
  proof (cases "Signal_value c s \<in> ex")
    case True
    with Cons show ?thesis by (simp add: spec_signal_step_def)
  next
    case False
    show ?thesis
    proof (cases "react m (Signal_value c s)")
      case (Inl e)
      with False Cons.prems show ?thesis by simp
    next
      case (Inr rs)
      with False Cons.prems Cons.IH [of "m\<lparr>reactions := rs\<rparr>"] show ?thesis
        by (simp add: spec_signal_step_def)
    qed
  qed
qed

lemma loop_not_stalled: "snd (add_signals_loop c react ex m ss) \<noteq> Stalled"
  by (induction ss arbitrary: m) (auto split: sum.splits)

lemma loop_returned_after:
  "snd (add_signals_loop c react ex m ss) = Returned m' \<Longrightarrow>
   spec_after react m (map (Signal_value c) (filter (\<lambda>s. Signal_value c s \<notin> ex) ss)) = Some m'"
proof (induction ss arbitrary: m)
  case Nil
  then show ?case by simp
next
  case (Cons s ss)
  show ?case
  proof (cases "Signal_value c s \<in> ex")
    case True
    with Cons show ?thesis by simp
  next
    case False
    show ?thesis
    proof (cases "react m (Signal_value c s)")
      case (Inl e)
      with False Cons.prems show ?thesis by simp
    next
      case (Inr rs)
      with False Cons.prems Cons.IH [of "m\<lparr>reactions := rs\<rparr>"] show ?thesis by simp
    qed
  qed
qed

lemma loop_raised_stops:
  "snd (add_signals_loop c react ex m ss) = Raised e \<Longrightarrow>
   \<exists>before s rest m1. ss = before @ s # rest \<and> Signal_value c s \<notin> ex
     \<and> spec_after react m
          (map (Signal_value c) (filter (\<lambda>s. Signal_value c s \<notin> ex) before)) = Some m1
     \<and> react m1 (Signal_value c s) = Inl e
     \<and> fst (add_signals_loop c react ex m ss)
         = concat (map (spec_signal_step c ex (msg_id m)) before)
           @ [Log (Adding_reaction s), Add_reaction (msg_id m) (Signal_value c s)]"
proof (induction ss arbitrary: m)
  case Nil
  then show ?case by simp
next
  case (Cons s0 ss)
  show ?case
  proof (cases "Signal_value c s0 \<in> ex")
    case True
    with Cons.prems have "snd (add_signals_loop c react ex m ss) = Raised e" by simp
    from Cons.IH [OF this] obtain before s rest m1 where
      h: "ss = before @ s # rest" "Signal_value c s \<notin> ex"
         "spec_after react m
            (map (Signal_value c) (filter (\<lambda>s. Signal_value c s \<notin> ex) before)) = Some m1"
         "react m1 (Signal_value c s) = Inl e"
         "fst (add_signals_loop c react ex m ss)
            = concat (map (spec_signal_step c ex (msg_id m)) before)
              @ [Log (Adding_reaction s), Add_reaction (msg_id m) (Signal_value c s)]"
      by blast
    have step0: "spec_signal_step c ex (msg_id m) s0 = [Log (Skipping_emoji s0)]"
      using True by (simp add: spec_signal_step_def)
    show ?thesis
    proof (intro exI conjI)
      show "s0 # ss = (s0 # before) @ s # rest" using h(1) by simp
      show "Signal_value c s \<notin> ex" by (rule h(2))
      show "spec_after react m
          (map (Signal_value c) (filter (\<lambda>s. Signal_value c s \<notin> ex) (s0 # before))) = Some m1"
        using h(3) True by simp
      show "react m1 (Signal_value c s) = Inl e" by (rule h(4))
      show "fst (add_signals_loop c react ex m (s0 # ss))
         = concat (map (spec_signal_step c ex (msg_id m)) (s0 # before))
           @ [Log (Adding_reaction s), Add_reaction (msg_id m) (Signal_value c s)]"
        using h(5) True by (simp add: step0)
    qed
  next
    case False
    show ?thesis
    proof (cases "react m (Signal_value c s0)")
      case (Inl e')
      with False Cons.prems have "e' = e" by simp
      show ?thesis
      proof (intro exI conjI)
        show "s0 # ss = [] @ s0 # ss" by simp
        show "Signal_value c s0 \<notin> ex" by (rule False)
        show "spec_after react m
            (map (Signal_value c) (filter (\<lambda>s. Signal_value c s \<notin> ex) [])) = Some m"
          by simp
        show "react m (Signal_value c s0) = Inl e" using Inl \<open>e' = e\<close> by simp
        show "fst (add_signals_loop c react ex m (s0 # ss))
           = concat (map (spec_signal_step c ex (msg_id m)) [])
             @ [Log (Adding_reaction s0), Add_reaction (msg_id m) (Signal_value c s0)]"
          using False Inl by simp
      qed
    next
      case (Inr rs)
      with False Cons.prems
      have "snd (add_signals_loop c react ex (m\<lparr>reactions := rs\<rparr>) ss) = Raised e" by simp
      from Cons.IH [OF this] obtain before s rest m1 where
        h: "ss = before @ s # rest" "Signal_value c s \<notin> ex"
           "spec_after react (m\<lparr>reactions := rs\<rparr>)
              (map (Signal_value c) (filter (\<lambda>s. Signal_value c s \<notin> ex) before)) = Some m1"
           "react m1 (Signal_value c s) = Inl e"
           "fst (add_signals_loop c react ex (m\<lparr>reactions := rs\<rparr>) ss)
              = concat (map (spec_signal_step c ex (msg_id m)) before)
                @ [Log (Adding_reaction s), Add_reaction (msg_id m) (Signal_value c s)]"
        by auto
      have step0: "spec_signal_step c ex (msg_id m) s0
         = [Log (Adding_reaction s0), Add_reaction (msg_id m) (Signal_value c s0)]"
        using False by (simp add: spec_signal_step_def)
      show ?thesis
      proof (intro exI conjI)
        show "s0 # ss = (s0 # before) @ s # rest" using h(1) by simp
        show "Signal_value c s \<notin> ex" by (rule h(2))
        show "spec_after react m
            (map (Signal_value c) (filter (\<lambda>s. Signal_value c s \<notin> ex) (s0 # before))) = Some m1"
          using h(3) False Inr by simp
        show "react m1 (Signal_value c s) = Inl e" by (rule h(4))
        show "fst (add_signals_loop c react ex m (s0 # ss))
           = concat (map (spec_signal_step c ex (msg_id m)) (s0 # before))
             @ [Log (Adding_reaction s), Add_reaction (msg_id m) (Signal_value c s)]"
          using h(5) False Inr by (simp add: step0)
      qed
    qed
  qed
qed

lemma loop_records:
  "records_own_reaction react \<Longrightarrow>
   snd (add_signals_loop c react ex m ss) = Returned m' \<Longrightarrow>
   own_reactions m \<subseteq> own_reactions m'
   \<and> (\<forall>s\<in>set ss. Signal_value c s \<notin> ex \<longrightarrow> Signal_value c s \<in> own_reactions m')"
proof (induction ss arbitrary: m)
  case Nil
  then show ?case by simp
next
  case (Cons s ss)
  show ?case
  proof (cases "Signal_value c s \<in> ex")
    case True
    with Cons show ?thesis by simp
  next
    case False
    show ?thesis
    proof (cases "react m (Signal_value c s)")
      case (Inl e)
      with False Cons.prems show ?thesis by simp
    next
      case (Inr rs)
      with Cons.prems(1) have sub: "insert (Signal_value c s) (own_reactions m)
           \<subseteq> own_reactions (m\<lparr>reactions := rs\<rparr>)"
        unfolding records_own_reaction_def by blast
      from False Inr Cons.prems(2)
      have "snd (add_signals_loop c react ex (m\<lparr>reactions := rs\<rparr>) ss) = Returned m'" by simp
      from Cons.IH [OF Cons.prems(1) this] sub False show ?thesis by auto
    qed
  qed
qed

lemma loop_all_present:
  "\<forall>s\<in>set ss. Signal_value c s \<in> ex \<Longrightarrow>
   add_signals_loop c react ex m ss = (map (\<lambda>s. Log (Skipping_emoji s)) ss, Returned m)"
  by (induction ss) auto

lemma loop_completes:
  "always_completes react \<Longrightarrow> \<exists>m'. snd (add_signals_loop c react ex m ss) = Returned m'"
proof (induction ss arbitrary: m)
  case Nil
  show ?case by simp
next
  case (Cons s ss)
  from Cons.prems obtain rs where "react m (Signal_value c s) = Inr rs"
    unfolding always_completes_def by blast
  with Cons.IH [OF Cons.prems, of m] Cons.IH [OF Cons.prems, of "m\<lparr>reactions := rs\<rparr>"]
  show ?case by auto
qed

subsection \<open>Facts about the concrete inputs\<close>

lemma report_own: "own_reactions report = {''U''}"
  by (simp add: own_reactions_def report_def)

lemma consts0_distinct:
  "distinct [Emojis_incident_actioned consts0, Emojis_incident_unactioned consts0,
             Emojis_incident_investigating consts0]"
  by (simp add: consts0_def)

lemma consts0_allowed: "ALLOWED_EMOJI consts0 = {''A'', ''U'', ''I''}"
  by (simp add: ALLOWED_EMOJI_eq consts0_def)

lemma consts0_members: "Signal_members consts0 = [ACTIONED, NOT_ACTIONED, INVESTIGATING]"
  by (rule Signal_members_three [OF consts0_distinct])

lemma consts0_fields:
  "Channels_incidents consts0 = 100"
  "Emojis_incident_actioned consts0 = ''A''" "Emojis_incident_unactioned consts0 = ''U''"
  "Emojis_incident_investigating consts0 = ''I''"
  by (simp_all add: consts0_def)

lemma report_fields:
  "msg_id report = 7" "channel_id report = 100" "\<not> author_bot report" "content report = ''help''"
  "\<not> pinned report"
  "reactions report = [\<lparr>emoji = ''U'', me = True\<rparr>, \<lparr>emoji = ''A'', me = False\<rparr>]"
  by (simp_all add: report_def)

lemma add_signals_report:
  "add_signals consts0 reacting report
   = ([Log (Adding_reaction ACTIONED), Add_reaction 7 ''A'', Log (Skipping_emoji NOT_ACTIONED),
       Log (Adding_reaction INVESTIGATING), Add_reaction 7 ''I''],
      Returned (report\<lparr>reactions := [\<lparr>emoji = ''U'', me = True\<rparr>, \<lparr>emoji = ''A'', me = True\<rparr>,
                                       \<lparr>emoji = ''I'', me = True\<rparr>]\<rparr>))"
  by (simp add: add_signals_def Let_def consts0_members report_own consts0_fields reacting_def report_fields)

lemma plan_requests:
  "filter is_Add_reaction (concat (map (spec_signal_step c ex i) ss))
   = map (\<lambda>s. Add_reaction i (Signal_value c s)) (filter (\<lambda>s. Signal_value c s \<notin> ex) ss)"
  by (induction ss) (simp_all add: spec_signal_step_def)

lemma add_own_records:
  "set (map emoji (filter me (add_own e rs))) = insert e (set (map emoji (filter me rs)))"
proof (induction rs)
  case Nil
  show ?case by simp
next
  case (Cons r rs)
  show ?case
  proof (cases "emoji r = e")
    case True
    have "add_own e (r # rs) = r\<lparr>me := True\<rparr> # rs" using True by simp
    then have "set (map emoji (filter me (add_own e (r # rs))))
       = insert (emoji r) (set (map emoji (filter me rs)))"
      by simp
    also have "\<dots> = insert e (set (map emoji (filter me (r # rs))))"
      using True by auto
    finally show ?thesis .
  next
    case False
    then have "add_own e (r # rs) = r # add_own e rs" by simp
    then show ?thesis using Cons.IH by (cases "me r") auto
  qed
qed

lemma reacting_records: "records_own_reaction reacting"
proof -
  have "own_reactions (m\<lparr>reactions := add_own e (reactions m)\<rparr>) = insert e (own_reactions m)"
    for m e
    using add_own_records [of e "reactions m"] by (simp add: own_reactions_def)
  then show ?thesis
    unfolding records_own_reaction_def reacting_def by auto
qed

lemma reacting_completes: "always_completes reacting"
  unfolding always_completes_def reacting_def by simp

subsection \<open>Classification\<close>

text \<open>
  Claim C1. \<open>is_incident\<close> is true exactly when the message was sent in the incidents
  channel, its author is not a bot, its content does not begin with the character \<open>#\<close>
  and it is not pinned. Starting from a message that qualifies, changing the channel to
  any other one, making the author a bot, putting a \<open>#\<close> in front of any content, or
  pinning the message, each alone makes the result false.
\<close>

theorem is_incident_iff_four_conditions:
  "(is_incident c m \<longleftrightarrow>
      channel_id m = Channels_incidents c \<and> \<not> author_bot m
      \<and> \<not> (content m \<noteq> [] \<and> hd (content m) = CHR ''#'') \<and> \<not> pinned m)
   \<and> (is_incident c m \<longrightarrow>
        (\<forall>ch. ch \<noteq> Channels_incidents c \<longrightarrow> \<not> is_incident c (m\<lparr>channel_id := ch\<rparr>))
        \<and> \<not> is_incident c (m\<lparr>author_bot := True\<rparr>)
        \<and> (\<forall>rest. \<not> is_incident c (m\<lparr>content := CHR ''#'' # rest\<rparr>))
        \<and> \<not> is_incident c (m\<lparr>pinned := True\<rparr>))"
  by (simp add: is_incident_def startswith_hash)

theorem is_incident_iff_four_conditions_witness:
  "is_incident consts0 report
   \<and> \<not> is_incident consts0 (report\<lparr>channel_id := 101\<rparr>)
   \<and> \<not> is_incident consts0 (report\<lparr>author_bot := True\<rparr>)
   \<and> \<not> is_incident consts0 (report\<lparr>content := ''#outage report''\<rparr>)
   \<and> \<not> is_incident consts0 (report\<lparr>pinned := True\<rparr>)"
proof -
  have q: "is_incident consts0 report"
    by (simp add: is_incident_def consts0_def report_def startswith_def)
  have ch: "(101::int) \<noteq> Channels_incidents consts0" by (simp add: consts0_def)
  note t = is_incident_iff_four_conditions [of consts0 report]
  note flips = t [THEN conjunct2, THEN mp, OF q]
  have a: "\<not> is_incident consts0 (report\<lparr>channel_id := 101\<rparr>)"
    by (rule flips [THEN conjunct1, THEN spec, THEN mp, OF ch])
  have c: "\<not> is_incident consts0 (report\<lparr>author_bot := True\<rparr>)"
    by (rule flips [THEN conjunct2, THEN conjunct1])
  have b: "\<not> is_incident consts0 (report\<lparr>content := ''#outage report''\<rparr>)"
    by (rule flips [THEN conjunct2, THEN conjunct2, THEN conjunct1, THEN spec])
  have d: "\<not> is_incident consts0 (report\<lparr>pinned := True\<rparr>)"
    by (rule flips [THEN conjunct2, THEN conjunct2, THEN conjunct2])
  from q a c b d show ?thesis by (intro conjI)
qed

subsection \<open>Own reactions and the signals a message has\<close>

text \<open>
  Claim C2. \<open>own_reactions\<close> is exactly the set of the emoji of those reactions of the
  message whose \<open>me\<close> flag is set. The allowed emoji are the three configured signal
  emoji, and \<open>has_signals\<close> holds exactly when the own reactions include all of them,
  which is to say that the allowed emoji without the own reactions are the empty set. Both
  are functions of the message (and the constants) alone: they have no trace.
\<close>

theorem own_reactions_superset_of_allowed:
  "own_reactions m = {emoji r |r. r \<in> set (reactions m) \<and> me r}
   \<and> ALLOWED_EMOJI c = {Emojis_incident_actioned c, Emojis_incident_unactioned c,
                         Emojis_incident_investigating c}
   \<and> (has_signals c m \<longleftrightarrow> ALLOWED_EMOJI c \<subseteq> own_reactions m)
   \<and> (has_signals c m \<longleftrightarrow> ALLOWED_EMOJI c - own_reactions m = {})"
proof -
  have a: "own_reactions m = {emoji r |r. r \<in> set (reactions m) \<and> me r}"
    by (auto simp: own_reactions_def)
  have b: "has_signals c m \<longleftrightarrow> ALLOWED_EMOJI c - own_reactions m = {}"
    by (simp add: has_signals_def)
  have d: "has_signals c m \<longleftrightarrow> ALLOWED_EMOJI c \<subseteq> own_reactions m"
    unfolding b by (rule Diff_eq_empty_iff)
  from a b d ALLOWED_EMOJI_eq [of c] show ?thesis by (intro conjI)
qed

theorem own_reactions_superset_of_allowed_witness:
  "own_reactions report = {''U''} \<and> \<not> has_signals consts0 report"
proof -
  have "\<not> ALLOWED_EMOJI consts0 \<subseteq> own_reactions report"
    by (simp add: consts0_allowed report_own)
  with own_reactions_superset_of_allowed [of report consts0] report_own show ?thesis
    by blast
qed

subsection \<open>The order of the requests of \<^verbatim>\<open>add_signals\<close>\<close>

lemma attachment_only_own: "own_reactions attachment_only = {}"
  by (simp add: own_reactions_def attachment_only_def)

lemma add_signals_attachment_refused:
  "snd (add_signals consts0 (refusing ''A'') attachment_only) = Raised Forbidden"
  by (simp add: add_signals_def Let_def consts0_members attachment_only_own consts0_fields
        refusing_def)

text \<open>
  Claim C3. When the three configured emoji are pairwise different, so that the
  enumeration has its three members, \<open>add_signals\<close> goes through ACTIONED, NOT_ACTIONED,
  INVESTIGATING in this order. For every answer of the platform, also one that changes
  the reactions of the message between two requests, the trace is an initial part of the
  trace the specification describes, which decides each signal with the own reactions
  the message had before the loop, and holds one request for each signal whose emoji was
  missing and none for the others. When the coroutine returns, the trace is the whole of
  it, and the requests for the missing signals have completed one after the other, each
  made on the message as the one before it left it. When the coroutine raises \<open>e\<close>, the
  signals split into those before a signal \<open>s\<close>, \<open>s\<close> itself and the rest: the
  requests for the missing signals before \<open>s\<close> have completed one after the other, the
  request for \<open>s\<close> on the message they left raised \<open>e\<close>, and the trace is the steps
  for the signals before \<open>s\<close> followed by the request for \<open>s\<close> and nothing else. So
  a request is made only when every request before it has completed, and no signal is
  considered after a request that raised. The coroutine never stalls.
\<close>

theorem add_signals_fixed_order:
  assumes "distinct [Emojis_incident_actioned c, Emojis_incident_unactioned c,
                     Emojis_incident_investigating c]"
  shows "Signal_members c = [ACTIONED, NOT_ACTIONED, INVESTIGATING]
   \<and> prefix (fst (add_signals c react m)) (spec_add_signals c m)
   \<and> (\<forall>m'. snd (add_signals c react m) = Returned m' \<longrightarrow>
         fst (add_signals c react m) = spec_add_signals c m
         \<and> spec_after react m
             (map (Signal_value c)
                (filter (\<lambda>s. Signal_value c s \<notin> own_reactions m)
                   [ACTIONED, NOT_ACTIONED, INVESTIGATING])) = Some m')
   \<and> (\<forall>e. snd (add_signals c react m) = Raised e \<longrightarrow>
         (\<exists>before s rest m1.
            [ACTIONED, NOT_ACTIONED, INVESTIGATING] = before @ s # rest
            \<and> Signal_value c s \<notin> own_reactions m
            \<and> spec_after react m
                (map (Signal_value c)
                   (filter (\<lambda>s. Signal_value c s \<notin> own_reactions m) before)) = Some m1
            \<and> react m1 (Signal_value c s) = Inl e
            \<and> fst (add_signals c react m)
                = concat (map (spec_signal_step c (own_reactions m) (msg_id m)) before)
                  @ [Log (Adding_reaction s), Add_reaction (msg_id m) (Signal_value c s)]))
   \<and> snd (add_signals c react m) \<noteq> Stalled
   \<and> filter is_Add_reaction (spec_add_signals c m)
       = map (\<lambda>s. Add_reaction (msg_id m) (Signal_value c s))
           (filter (\<lambda>s. Signal_value c s \<notin> own_reactions m) [ACTIONED, NOT_ACTIONED, INVESTIGATING])"
proof -
  have mem: "Signal_members c = [ACTIONED, NOT_ACTIONED, INVESTIGATING]"
    using assms by (rule Signal_members_three)
  have run: "add_signals c react m
     = add_signals_loop c react (own_reactions m) m [ACTIONED, NOT_ACTIONED, INVESTIGATING]"
    by (simp add: add_signals_def mem)
  have p1: "prefix (fst (add_signals c react m)) (spec_add_signals c m)"
    unfolding run spec_add_signals_def by (rule loop_trace_prefix)
  have p2: "\<forall>m'. snd (add_signals c react m) = Returned m' \<longrightarrow>
         fst (add_signals c react m) = spec_add_signals c m
         \<and> spec_after react m
             (map (Signal_value c)
                (filter (\<lambda>s. Signal_value c s \<notin> own_reactions m)
                   [ACTIONED, NOT_ACTIONED, INVESTIGATING])) = Some m'"
    unfolding run spec_add_signals_def
    by (intro allI impI conjI) (rule loop_trace_returned, assumption, rule loop_returned_after)
  have p3: "\<forall>e. snd (add_signals c react m) = Raised e \<longrightarrow>
         (\<exists>before s rest m1.
            [ACTIONED, NOT_ACTIONED, INVESTIGATING] = before @ s # rest
            \<and> Signal_value c s \<notin> own_reactions m
            \<and> spec_after react m
                (map (Signal_value c)
                   (filter (\<lambda>s. Signal_value c s \<notin> own_reactions m) before)) = Some m1
            \<and> react m1 (Signal_value c s) = Inl e
            \<and> fst (add_signals c react m)
                = concat (map (spec_signal_step c (own_reactions m) (msg_id m)) before)
                  @ [Log (Adding_reaction s), Add_reaction (msg_id m) (Signal_value c s)])"
    unfolding run by (intro allI impI) (rule loop_raised_stops)
  have p4: "snd (add_signals c react m) \<noteq> Stalled"
    unfolding run by (rule loop_not_stalled)
  have p5: "filter is_Add_reaction (spec_add_signals c m)
       = map (\<lambda>s. Add_reaction (msg_id m) (Signal_value c s))
           (filter (\<lambda>s. Signal_value c s \<notin> own_reactions m) [ACTIONED, NOT_ACTIONED, INVESTIGATING])"
    unfolding spec_add_signals_def by (rule plan_requests)
  from mem p1 p2 p3 p4 p5 show ?thesis by (intro conjI)
qed

theorem add_signals_fixed_order_witness:
  "distinct [Emojis_incident_actioned consts0, Emojis_incident_unactioned consts0,
             Emojis_incident_investigating consts0]
   \<and> snd (add_signals consts0 reacting report) = Returned report_signalled
   \<and> fst (add_signals consts0 reacting report)
     = [Log (Adding_reaction ACTIONED), Add_reaction 7 ''A'', Log (Skipping_emoji NOT_ACTIONED),
        Log (Adding_reaction INVESTIGATING), Add_reaction 7 ''I'']
   \<and> snd (add_signals consts0 (refusing ''A'') attachment_only) = Raised Forbidden
   \<and> fst (add_signals consts0 (refusing ''A'') attachment_only)
     = [Log (Adding_reaction ACTIONED), Add_reaction 8 ''A'']"
proof -
  note t = add_signals_fixed_order [OF consts0_distinct, of reacting report]
  note u = add_signals_fixed_order [OF consts0_distinct, of "refusing ''A''" attachment_only]
  have r: "snd (add_signals consts0 reacting report) = Returned report_signalled"
    by (simp add: add_signals_report report_signalled_def)
  note a = t [THEN conjunct2, THEN conjunct2, THEN conjunct1, THEN spec, THEN mp, OF r,
              THEN conjunct1]
  have b: "spec_add_signals consts0 report
     = [Log (Adding_reaction ACTIONED), Add_reaction 7 ''A'', Log (Skipping_emoji NOT_ACTIONED),
        Log (Adding_reaction INVESTIGATING), Add_reaction 7 ''I'']"
    by (simp add: spec_add_signals_def spec_signal_step_def report_own consts0_fields
          report_fields)
  note f = add_signals_attachment_refused
  from u [THEN conjunct2, THEN conjunct2, THEN conjunct2, THEN conjunct1, THEN spec,
          THEN mp, OF f]
  obtain before s rest m1 where
    h1: "[ACTIONED, NOT_ACTIONED, INVESTIGATING] = before @ s # rest"
    and h3: "spec_after (refusing ''A'') attachment_only
               (map (Signal_value consts0)
                  (filter (\<lambda>s. Signal_value consts0 s \<notin> own_reactions attachment_only) before))
             = Some m1"
    and h5: "fst (add_signals consts0 (refusing ''A'') attachment_only)
             = concat (map (spec_signal_step consts0 (own_reactions attachment_only)
                              (msg_id attachment_only)) before)
               @ [Log (Adding_reaction s),
                  Add_reaction (msg_id attachment_only) (Signal_value consts0 s)]"
    by blast
  have "before = []"
  proof (cases before)
    case Nil
    then show ?thesis .
  next
    case (Cons b bs)
    with h1 have "b = ACTIONED" by simp
    with Cons h3 show ?thesis
      by (simp add: attachment_only_own consts0_fields refusing_def)
  qed
  with h1 have "s = ACTIONED" by simp
  with h5 \<open>before = []\<close>
  have d: "fst (add_signals consts0 (refusing ''A'') attachment_only)
     = [Log (Adding_reaction ACTIONED), Add_reaction 8 ''A'']"
    by (simp add: consts0_fields attachment_only_def)
  from consts0_distinct r a [unfolded b] f d show ?thesis by (intro conjI)
qed

subsection \<open>Calling \<^verbatim>\<open>add_signals\<close> twice\<close>

text \<open>
  Claim C4. The requests of one call of \<open>add_signals\<close> are pairwise different and each
  asks for an allowed emoji that was not among the own reactions of the message. If every
  request that completes records the bot's reaction on the message, then a second call on
  the message as the first call left it makes no request at all, and returns the message
  as it was.
\<close>

theorem add_signals_idempotent:
  "distinct (filter is_Add_reaction (fst (add_signals c react m)))
   \<and> set (filter is_Add_reaction (fst (add_signals c react m)))
       \<subseteq> Add_reaction (msg_id m) ` (ALLOWED_EMOJI c - own_reactions m)
   \<and> (records_own_reaction react \<longrightarrow>
        (\<forall>m1. snd (add_signals c react m) = Returned m1 \<longrightarrow>
           filter is_Add_reaction (fst (add_signals c react m1)) = []
           \<and> snd (add_signals c react m1) = Returned m1))"
proof -
  let ?ex = "own_reactions m"
  let ?plan = "concat (map (spec_signal_step c ?ex (msg_id m)) (Signal_members c))"
  let ?reqs = "map (\<lambda>s. Add_reaction (msg_id m) (Signal_value c s))
                 (filter (\<lambda>s. Signal_value c s \<notin> ?ex) (Signal_members c))"
  have run: "add_signals c react m = add_signals_loop c react ?ex m (Signal_members c)"
    by (simp add: add_signals_def)
  have "prefix (fst (add_signals c react m)) ?plan"
    unfolding run by (rule loop_trace_prefix)
  then obtain zs where "?plan = fst (add_signals c react m) @ zs"
    unfolding prefix_def by blast
  then have "filter is_Add_reaction ?plan
     = filter is_Add_reaction (fst (add_signals c react m)) @ filter is_Add_reaction zs"
    by simp
  then have split: "?reqs = filter is_Add_reaction (fst (add_signals c react m))
                       @ filter is_Add_reaction zs"
    by (simp only: plan_requests)
  have inj: "inj (Add_reaction (msg_id m))" by (simp add: inj_def)
  have "distinct (map (Signal_value c) (filter (\<lambda>s. Signal_value c s \<notin> ?ex) (Signal_members c)))"
    by (rule distinct_map_filter) (rule Signal_members_distinct)
  then have "distinct (map (Add_reaction (msg_id m))
       (map (Signal_value c) (filter (\<lambda>s. Signal_value c s \<notin> ?ex) (Signal_members c))))"
    using inj by (simp add: distinct_map inj_on_def)
  then have dreq: "distinct ?reqs" by (simp add: comp_def)
  have sreq: "set ?reqs \<subseteq> Add_reaction (msg_id m) ` (ALLOWED_EMOJI c - ?ex)"
    by (auto simp: ALLOWED_EMOJI_def)
  have p1: "distinct (filter is_Add_reaction (fst (add_signals c react m)))"
    using dreq unfolding split by simp
  have p2: "set (filter is_Add_reaction (fst (add_signals c react m)))
       \<subseteq> Add_reaction (msg_id m) ` (ALLOWED_EMOJI c - ?ex)"
    using sreq unfolding split by simp
  have p3: "records_own_reaction react \<longrightarrow>
        (\<forall>m1. snd (add_signals c react m) = Returned m1 \<longrightarrow>
           filter is_Add_reaction (fst (add_signals c react m1)) = []
           \<and> snd (add_signals c react m1) = Returned m1)"
  proof (intro impI allI)
    fix m1
    assume rec: "records_own_reaction react"
      and ret: "snd (add_signals c react m) = Returned m1"
    from ret have "snd (add_signals_loop c react ?ex m (Signal_members c)) = Returned m1"
      by (simp only: run)
    from loop_records [OF rec this]
    have "\<forall>s\<in>set (Signal_members c). Signal_value c s \<in> own_reactions m1" by blast
    then have "add_signals_loop c react (own_reactions m1) m1 (Signal_members c)
       = (map (\<lambda>s. Log (Skipping_emoji s)) (Signal_members c), Returned m1)"
      by (rule loop_all_present)
    then have "add_signals c react m1
       = (map (\<lambda>s. Log (Skipping_emoji s)) (Signal_members c), Returned m1)"
      by (simp add: add_signals_def)
    then show "filter is_Add_reaction (fst (add_signals c react m1)) = []
           \<and> snd (add_signals c react m1) = Returned m1"
      by (simp add: filter_empty_conv)
  qed
  from p1 p2 p3 show ?thesis by (intro conjI)
qed

theorem add_signals_idempotent_witness:
  "records_own_reaction reacting
   \<and> snd (add_signals consts0 reacting report) = Returned report_signalled
   \<and> filter is_Add_reaction (fst (add_signals consts0 reacting report))
       = [Add_reaction 7 ''A'', Add_reaction 7 ''I'']
   \<and> filter is_Add_reaction (fst (add_signals consts0 reacting report_signalled)) = []
   \<and> snd (add_signals consts0 reacting report_signalled) = Returned report_signalled"
proof -
  note t = add_signals_idempotent [of consts0 reacting report]
  have r: "snd (add_signals consts0 reacting report) = Returned report_signalled"
    by (simp add: add_signals_report report_signalled_def)
  have f: "filter is_Add_reaction (fst (add_signals consts0 reacting report))
       = [Add_reaction 7 ''A'', Add_reaction 7 ''I'']"
    by (simp add: add_signals_report)
  note second = t [THEN conjunct2, THEN conjunct2, THEN mp, OF reacting_records,
                   THEN spec, THEN mp, OF r]
  from reacting_records r f second [THEN conjunct1] second [THEN conjunct2]
  show ?thesis by (intro conjI)
qed

subsection \<open>Facts about the crawl\<close>

lemma loop_events:
  "ev \<in> set (fst (add_signals_loop c react ex m ss)) \<Longrightarrow> is_Log ev \<or> is_Add_reaction ev"
proof (induction ss arbitrary: m)
  case Nil
  then show ?case by simp
next
  case (Cons s ss)
  show ?case
  proof (cases "Signal_value c s \<in> ex")
    case True
    with Cons.prems Cons.IH [of m] show ?thesis by auto
  next
    case False
    show ?thesis
    proof (cases "react m (Signal_value c s)")
      case (Inl e)
      with False Cons.prems show ?thesis by auto
    next
      case (Inr rs)
      with False Cons.prems Cons.IH [of "m\<lparr>reactions := rs\<rparr>"] show ?thesis by auto
    qed
  qed
qed

lemma loop_nonempty: "ss \<noteq> [] \<Longrightarrow> fst (add_signals_loop c react ex m ss) \<noteq> []"
  by (cases ss) (auto split: sum.splits)

lemma add_signals_events:
  "ev \<in> set (fst (add_signals c react m)) \<Longrightarrow> is_Log ev \<or> is_Add_reaction ev"
  unfolding add_signals_def Let_def by (rule loop_events)

lemma add_signals_nonempty: "fst (add_signals c react m) \<noteq> []"
  unfolding add_signals_def Let_def by (rule loop_nonempty) (rule Signal_members_nonempty)

lemma add_signals_not_stalled: "snd (add_signals c react m) \<noteq> Stalled"
  unfolding add_signals_def Let_def by (rule loop_not_stalled)

lemma add_signals_completes:
  "always_completes react \<Longrightarrow> \<exists>m'. snd (add_signals c react m) = Returned m'"
  unfolding add_signals_def Let_def by (rule loop_completes)

lemma add_signals_no_sleep: "filter is_Sleep (fst (add_signals c react m)) = []"
proof -
  have "\<not> is_Sleep ev" if "ev \<in> set (fst (add_signals c react m))" for ev
    using add_signals_events [OF that] by (cases ev) auto
  then show ?thesis by (simp add: filter_empty_conv)
qed

lemma crawl_loop_returned:
  "\<forall>m\<in>set ms. is_incident c m \<and> \<not> has_signals c m
       \<longrightarrow> (\<exists>m'. snd (add_signals c react m) = Returned m') \<Longrightarrow>
   crawl_loop c react 2 ms
     = (concat (map (spec_crawl_step c react) ms) @ [Log Crawl_finished], Returned ())"
proof (induction ms)
  case Nil
  show ?case by simp
next
  case (Cons m ms)
  then have IH: "crawl_loop c react 2 ms
     = (concat (map (spec_crawl_step c react) ms) @ [Log Crawl_finished], Returned ())"
    by simp
  show ?case
  proof (cases "is_incident c m \<and> \<not> has_signals c m")
    case False
    then have "spec_crawl_step c react m = [Log Skipping_not_incident] \<and> \<not> is_incident c m
      \<or> spec_crawl_step c react m = [Log Skipping_has_signals] \<and> is_incident c m
          \<and> has_signals c m"
      by (auto simp: spec_crawl_step_def)
    then show ?thesis using IH by auto
  next
    case True
    with Cons.prems obtain m' where "snd (add_signals c react m) = Returned m'" by auto
    then obtain evs where a: "add_signals c react m = (evs, Returned m')"
      by (cases "add_signals c react m") simp
    have "spec_crawl_step c react m = evs @ [Sleep 2]"
      using True by (simp add: spec_crawl_step_def a)
    then show ?thesis using True IH by (simp add: a)
  qed
qed

lemma crawl_loop_prefix:
  "prefix (fst (crawl_loop c react 2 ms))
     (concat (map (spec_crawl_step c react) ms) @ [Log Crawl_finished])"
proof (induction ms)
  case Nil
  show ?case by simp
next
  case (Cons m ms)
  show ?case
  proof (cases "is_incident c m \<and> \<not> has_signals c m")
    case False
    then show ?thesis using Cons.IH by (auto simp: spec_crawl_step_def)
  next
    case True
    obtain evs r where a: "add_signals c react m = (evs, r)" by (cases "add_signals c react m")
    show ?thesis
    proof (cases r)
      case (Returned m')
      with a True Cons.IH show ?thesis by (simp add: spec_crawl_step_def)
    next
      case (Raised e)
      with a True show ?thesis by (simp add: spec_crawl_step_def)
    next
      case Stalled
      with a True show ?thesis by (simp add: spec_crawl_step_def)
    qed
  qed
qed

lemma crawl_loop_not_stalled: "snd (crawl_loop c react sl ms) \<noteq> Stalled"
proof (induction ms)
  case Nil
  show ?case by simp
next
  case (Cons m ms)
  obtain evs r where a: "add_signals c react m = (evs, r)" by (cases "add_signals c react m")
  with add_signals_not_stalled [of c react m] have "r \<noteq> Stalled" by simp
  with a Cons.IH show ?case by (cases r) auto
qed

lemma spec_crawl_step_sleep:
  "filter is_Sleep (spec_crawl_step c react m)
   = (if is_incident c m \<and> \<not> has_signals c m then [Sleep 2] else [])"
  by (simp add: spec_crawl_step_def add_signals_no_sleep)

lemma spec_crawl_steps_sleep:
  "filter is_Sleep (concat (map (spec_crawl_step c react) ms))
   = replicate (length (filter (\<lambda>m. is_incident c m \<and> \<not> has_signals c m) ms)) (Sleep 2)"
  by (induction ms) (simp_all add: spec_crawl_step_sleep)

lemma spec_crawl_events:
  "ev \<in> set (spec_crawl c react ms) \<Longrightarrow> \<forall>k. ev \<noteq> Create_task k"
proof -
  assume "ev \<in> set (spec_crawl c react ms)"
  then consider "ev \<in> {Wait_until_guild_available, Get_channel (Channels_incidents c),
                      Log (Crawling_messages 50 2), History 50, Log Crawl_finished}"
    | m where "m \<in> set ms" "ev \<in> set (spec_crawl_step c react m)"
    unfolding spec_crawl_def by auto
  then show ?thesis
  proof cases
    case 1
    then show ?thesis by auto
  next
    case 2
    then have "ev \<in> {Log Skipping_not_incident, Log Skipping_has_signals, Sleep 2}
               \<or> ev \<in> set (fst (add_signals c react m))"
      unfolding spec_crawl_step_def by (auto split: if_splits)
    then show ?thesis using add_signals_events [of ev c react m] by (cases ev) auto
  qed
qed

lemma crawl_incidents_run:
  assumes "guild_available (self_bot self)"
    and "get_channel (self_bot self) (Channels_incidents c) = Some ch"
    and "history_raises ch = None"
  shows "crawl_incidents c react self
    = apfst ((@) [Wait_until_guild_available, Get_channel (Channels_incidents c),
                  Log (Crawling_messages 50 2), History 50])
        (crawl_loop c react 2 (take 50 (channel_messages ch)))"
  using assms by (simp add: crawl_incidents_def history_def Let_def)

lemma cog0_bot: "self_bot cog0 = bot0"
  by (simp add: cog0_def Incidents_init_def)

lemma bot0_fields:
  "guild_available bot0" "get_channel bot0 100 = Some channel0"
  "get_message bot0 7 = Some report" "get_message bot0 4 = None" "get_message bot0 5 = None"
  by (simp_all add: bot0_def)

lemma channel0_fields:
  "history_raises channel0 = None"
  "take 50 (channel_messages channel0)
     = [report, report\<lparr>msg_id := 6, pinned := True\<rparr>, report_signalled\<lparr>msg_id := 4\<rparr>,
        report\<lparr>msg_id := 5, channel_id := 9\<rparr>]"
  "fetch_message channel0 4 = Inl NotFound"
  "fetch_message channel0 5 = Inr (report\<lparr>msg_id := 5\<rparr>)"
  by (simp_all add: channel0_def)

lemma report_is_incident: "is_incident consts0 report"
  by (simp add: is_incident_def consts0_fields report_fields startswith_def)

lemma report_lacks_signals: "\<not> has_signals consts0 report"
  by (simp add: has_signals_def consts0_allowed report_own)

lemma stream_steps:
  "spec_crawl_step consts0 reacting report
     = [Log (Adding_reaction ACTIONED), Add_reaction 7 ''A'', Log (Skipping_emoji NOT_ACTIONED),
        Log (Adding_reaction INVESTIGATING), Add_reaction 7 ''I'', Sleep 2]"
  "spec_crawl_step consts0 reacting (report\<lparr>msg_id := 6, pinned := True\<rparr>)
     = [Log Skipping_not_incident]"
  "spec_crawl_step consts0 reacting (report_signalled\<lparr>msg_id := 4\<rparr>)
     = [Log Skipping_has_signals]"
  "spec_crawl_step consts0 reacting (report\<lparr>msg_id := 5, channel_id := 9\<rparr>)
     = [Log Skipping_not_incident]"
proof -
  show "spec_crawl_step consts0 reacting report
     = [Log (Adding_reaction ACTIONED), Add_reaction 7 ''A'', Log (Skipping_emoji NOT_ACTIONED),
        Log (Adding_reaction INVESTIGATING), Add_reaction 7 ''I'', Sleep 2]"
    by (simp add: spec_crawl_step_def report_is_incident report_lacks_signals add_signals_report)
  show "spec_crawl_step consts0 reacting (report\<lparr>msg_id := 6, pinned := True\<rparr>)
     = [Log Skipping_not_incident]"
    by (simp add: spec_crawl_step_def is_incident_def)
  show "spec_crawl_step consts0 reacting (report\<lparr>msg_id := 5, channel_id := 9\<rparr>)
     = [Log Skipping_not_incident]"
    by (simp add: spec_crawl_step_def is_incident_def consts0_fields)
  have "is_incident consts0 (report_signalled\<lparr>msg_id := 4\<rparr>)"
    by (simp add: is_incident_def consts0_fields report_signalled_def report_fields startswith_def)
  moreover have "has_signals consts0 (report_signalled\<lparr>msg_id := 4\<rparr>)"
    by (simp add: has_signals_def consts0_allowed own_reactions_def report_signalled_def)
  ultimately show "spec_crawl_step consts0 reacting (report_signalled\<lparr>msg_id := 4\<rparr>)
     = [Log Skipping_has_signals]"
    by (simp add: spec_crawl_step_def)
qed

subsection \<open>The crawl\<close>

text \<open>
  Claim C5. Once the guild is available, the incidents channel is known and its history
  can be read, \<open>crawl_incidents\<close> asks for the history with limit 50 and goes through the
  at most 50 messages it yields, newest first. Its trace is an initial part of the trace
  the specification describes, and the whole of it, with the coroutine returning, when
  every call of \<open>add_signals\<close> it makes returns: a message that is not an incident is
  skipped, one that has all signals is skipped, any other gets \<open>add_signals\<close> followed
  by a sleep of 2 seconds. There are as many sleeps as messages that are incidents lacking
  a signal, none for a skipped message. The crawl never stalls after the barrier, and it
  schedules no task: the one \<open>create_task\<close> is that of \<open>__init__\<close>.
\<close>

theorem crawl_incidents_skips_and_throttles:
  assumes "guild_available (self_bot self)"
    and "get_channel (self_bot self) (Channels_incidents c) = Some ch"
    and "history_raises ch = None"
  shows "length (take 50 (channel_messages ch)) \<le> 50
   \<and> prefix (fst (crawl_incidents c react self))
        (spec_crawl c react (take 50 (channel_messages ch)))
   \<and> ((\<forall>m\<in>set (take 50 (channel_messages ch)). is_incident c m \<and> \<not> has_signals c m
           \<longrightarrow> (\<exists>m'. snd (add_signals c react m) = Returned m'))
        \<longrightarrow> crawl_incidents c react self
             = (spec_crawl c react (take 50 (channel_messages ch)), Returned ()))
   \<and> filter is_Sleep (spec_crawl c react (take 50 (channel_messages ch)))
       = replicate (length (filter (\<lambda>m. is_incident c m \<and> \<not> has_signals c m)
                              (take 50 (channel_messages ch)))) (Sleep 2)
   \<and> snd (crawl_incidents c react self) \<noteq> Stalled
   \<and> (\<forall>k. Create_task k \<notin> set (fst (crawl_incidents c react self)))
   \<and> snd (Incidents_init (self_bot self)) = [Create_task Crawl_incidents]"
proof -
  let ?ms = "take 50 (channel_messages ch)"
  let ?head = "[Wait_until_guild_available, Get_channel (Channels_incidents c),
                Log (Crawling_messages 50 2), History 50]"
  note run = crawl_incidents_run [OF assms, of react]
  have p1: "length ?ms \<le> 50" by simp
  have p2: "prefix (fst (crawl_incidents c react self)) (spec_crawl c react ?ms)"
    unfolding run spec_crawl_def using crawl_loop_prefix [of c react ?ms] by simp
  have p3: "(\<forall>m\<in>set ?ms. is_incident c m \<and> \<not> has_signals c m
           \<longrightarrow> (\<exists>m'. snd (add_signals c react m) = Returned m'))
        \<longrightarrow> crawl_incidents c react self = (spec_crawl c react ?ms, Returned ())"
  proof
    assume "\<forall>m\<in>set ?ms. is_incident c m \<and> \<not> has_signals c m
           \<longrightarrow> (\<exists>m'. snd (add_signals c react m) = Returned m')"
    from crawl_loop_returned [OF this]
    show "crawl_incidents c react self = (spec_crawl c react ?ms, Returned ())"
      unfolding run spec_crawl_def by simp
  qed
  have p4: "filter is_Sleep (spec_crawl c react ?ms)
       = replicate (length (filter (\<lambda>m. is_incident c m \<and> \<not> has_signals c m) ?ms)) (Sleep 2)"
    unfolding spec_crawl_def by (simp add: spec_crawl_steps_sleep)
  have p5: "snd (crawl_incidents c react self) \<noteq> Stalled"
    unfolding run using crawl_loop_not_stalled [of c react 2 ?ms] by simp
  have p6: "\<forall>k. Create_task k \<notin> set (fst (crawl_incidents c react self))"
  proof
    fix k
    from p2 have "set (fst (crawl_incidents c react self)) \<subseteq> set (spec_crawl c react ?ms)"
      by (rule set_mono_prefix)
    then show "Create_task k \<notin> set (fst (crawl_incidents c react self))"
      using spec_crawl_events [of "Create_task k" c react ?ms] by blast
  qed
  have p7: "snd (Incidents_init (self_bot self)) = [Create_task Crawl_incidents]"
    by (simp add: Incidents_init_def)
  from p1 p2 p3 p4 p5 p6 p7 show ?thesis by (intro conjI)
qed

theorem crawl_incidents_skips_and_throttles_witness:
  "guild_available (self_bot cog0)
   \<and> get_channel (self_bot cog0) (Channels_incidents consts0) = Some channel0
   \<and> history_raises channel0 = None
   \<and> crawl_incidents consts0 reacting cog0
     = ([Wait_until_guild_available, Get_channel 100, Log (Crawling_messages 50 2), History 50,
         Log (Adding_reaction ACTIONED), Add_reaction 7 ''A'', Log (Skipping_emoji NOT_ACTIONED),
         Log (Adding_reaction INVESTIGATING), Add_reaction 7 ''I'', Sleep 2,
         Log Skipping_not_incident, Log Skipping_has_signals, Log Skipping_not_incident,
         Log Crawl_finished], Returned ())"
proof -
  have g: "guild_available (self_bot cog0)" by (simp add: cog0_bot bot0_fields)
  have ch: "get_channel (self_bot cog0) (Channels_incidents consts0) = Some channel0"
    by (simp add: cog0_bot bot0_fields consts0_fields)
  have h: "history_raises channel0 = None" by (rule channel0_fields)
  note t = crawl_incidents_skips_and_throttles [OF g ch h, of reacting]
  have ok: "\<forall>m\<in>set (take 50 (channel_messages channel0)).
      is_incident consts0 m \<and> \<not> has_signals consts0 m
        \<longrightarrow> (\<exists>m'. snd (add_signals consts0 reacting m) = Returned m')"
    using add_signals_completes [OF reacting_completes] by blast
  note r = t [THEN conjunct2, THEN conjunct2, THEN conjunct1, THEN mp, OF ok]
  have v: "spec_crawl consts0 reacting (take 50 (channel_messages channel0))
     = [Wait_until_guild_available, Get_channel 100, Log (Crawling_messages 50 2), History 50,
         Log (Adding_reaction ACTIONED), Add_reaction 7 ''A'', Log (Skipping_emoji NOT_ACTIONED),
         Log (Adding_reaction INVESTIGATING), Add_reaction 7 ''I'', Sleep 2,
         Log Skipping_not_incident, Log Skipping_has_signals, Log Skipping_not_incident,
         Log Crawl_finished]"
    by (simp add: spec_crawl_def channel0_fields stream_steps consts0_fields)
  from g ch h r [unfolded v] show ?thesis by (intro conjI)
qed

subsection \<open>Resolving a message\<close>

text \<open>
  Claim C6. Once the guild is available, \<open>resolve_message\<close> looks the identifier up in
  the cache before anything else. On a hit it returns the cached message, and its trace
  has no fetch and no channel lookup. On a miss it fetches from the incidents channel:
  whatever the fetch raises, be it not-found or any other failure of the platform or the
  transport, the coroutine returns \<^verbatim>\<open>None\<close> and raises nothing; a fetch that succeeds
  gives the fetched message. A missing channel object is caught in the same way. The only
  exception the \<^verbatim>\<open>except Exception\<close> clause lets through is the cancellation of the task
  itself, which is not a failure of the fetch.
\<close>

theorem resolve_message_cache_then_fetch:
  assumes "guild_available (self_bot self)"
  shows "prefix [Wait_until_guild_available, Log (Resolving_message i), Get_message i]
           (fst (resolve_message c self i))
   \<and> (\<forall>message. get_message (self_bot self) i = Some message \<longrightarrow>
         snd (resolve_message c self i) = Returned (Some message)
         \<and> (\<forall>j. Fetch_message j \<notin> set (fst (resolve_message c self i)))
         \<and> (\<forall>j. Get_channel j \<notin> set (fst (resolve_message c self i))))
   \<and> (get_message (self_bot self) i = None \<longrightarrow>
         (get_channel (self_bot self) (Channels_incidents c) = None \<longrightarrow>
            snd (resolve_message c self i) = Returned None)
         \<and> (\<forall>ch. get_channel (self_bot self) (Channels_incidents c) = Some ch \<longrightarrow>
               Fetch_message i \<in> set (fst (resolve_message c self i))
               \<and> (\<forall>exc. fetch_message ch i = Inl exc \<and> exc \<noteq> CancelledError \<longrightarrow>
                     snd (resolve_message c self i) = Returned None)
               \<and> (\<forall>message. fetch_message ch i = Inr message \<longrightarrow>
                     snd (resolve_message c self i) = Returned (Some message))))"
proof -
  have p1: "prefix [Wait_until_guild_available, Log (Resolving_message i), Get_message i]
           (fst (resolve_message c self i))"
    using assms
    by (simp add: resolve_message_def Let_def split: option.split sum.split)
  have p2: "\<forall>message. get_message (self_bot self) i = Some message \<longrightarrow>
         snd (resolve_message c self i) = Returned (Some message)
         \<and> (\<forall>j. Fetch_message j \<notin> set (fst (resolve_message c self i)))
         \<and> (\<forall>j. Get_channel j \<notin> set (fst (resolve_message c self i)))"
    using assms by (simp add: resolve_message_def Let_def)
  have p3: "get_message (self_bot self) i = None \<longrightarrow>
         (get_channel (self_bot self) (Channels_incidents c) = None \<longrightarrow>
            snd (resolve_message c self i) = Returned None)
         \<and> (\<forall>ch. get_channel (self_bot self) (Channels_incidents c) = Some ch \<longrightarrow>
               Fetch_message i \<in> set (fst (resolve_message c self i))
               \<and> (\<forall>exc. fetch_message ch i = Inl exc \<and> exc \<noteq> CancelledError \<longrightarrow>
                     snd (resolve_message c self i) = Returned None)
               \<and> (\<forall>message. fetch_message ch i = Inr message \<longrightarrow>
                     snd (resolve_message c self i) = Returned (Some message)))"
  proof (intro impI conjI allI)
    assume miss: "get_message (self_bot self) i = None"
    {
      assume "get_channel (self_bot self) (Channels_incidents c) = None"
      with miss assms show "snd (resolve_message c self i) = Returned None"
        by (simp add: resolve_message_def Let_def)
    next
      fix ch
      assume ch: "get_channel (self_bot self) (Channels_incidents c) = Some ch"
      with miss assms show "Fetch_message i \<in> set (fst (resolve_message c self i))"
        by (simp add: resolve_message_def Let_def split: sum.split)
      {
        fix exc
        assume "fetch_message ch i = Inl exc \<and> exc \<noteq> CancelledError"
        then have "fetch_message ch i = Inl exc" "isinstance_Exception exc"
          by (cases exc; simp)+
        with miss ch assms show "snd (resolve_message c self i) = Returned None"
          by (simp add: resolve_message_def Let_def)
      next
        fix message
        assume "fetch_message ch i = Inr message"
        with miss ch assms show "snd (resolve_message c self i) = Returned (Some message)"
          by (simp add: resolve_message_def Let_def)
      }
    }
  qed
  from p1 p2 p3 show ?thesis by (intro conjI)
qed

theorem resolve_message_cache_then_fetch_witness:
  "guild_available (self_bot cog0)
   \<and> snd (resolve_message consts0 cog0 7) = Returned (Some report)
   \<and> Fetch_message 7 \<notin> set (fst (resolve_message consts0 cog0 7))
   \<and> fetch_message channel0 4 = Inl NotFound
   \<and> snd (resolve_message consts0 cog0 4) = Returned None
   \<and> snd (resolve_message consts0 cog0 5) = Returned (Some (report\<lparr>msg_id := 5\<rparr>))
   \<and> get_channel (self_bot cog0) 999 = None
   \<and> snd (resolve_message (consts0\<lparr>Channels_incidents := 999\<rparr>) cog0 4) = Returned None"
proof -
  have g: "guild_available (self_bot cog0)" by (simp add: cog0_bot bot0_fields)
  have nc: "get_channel (self_bot cog0) 999 = None" by (simp add: cog0_bot bot0_def)
  then have nc':
    "get_channel (self_bot cog0) (Channels_incidents (consts0\<lparr>Channels_incidents := 999\<rparr>)) = None"
    by simp
  note t9 = resolve_message_cache_then_fetch
    [OF g, of 4 "consts0\<lparr>Channels_incidents := 999\<rparr>"]
  have ch: "get_channel (self_bot cog0) (Channels_incidents consts0) = Some channel0"
    by (simp add: cog0_bot bot0_fields consts0_fields)
  have hit: "get_message (self_bot cog0) 7 = Some report" by (simp add: cog0_bot bot0_fields)
  have miss4: "get_message (self_bot cog0) 4 = None" by (simp add: cog0_bot bot0_fields)
  have miss5: "get_message (self_bot cog0) 5 = None" by (simp add: cog0_bot bot0_fields)
  have nf: "fetch_message channel0 4 = Inl NotFound \<and> NotFound \<noteq> CancelledError"
    by (simp add: channel0_fields)
  note t7 = resolve_message_cache_then_fetch [OF g, of 7 consts0]
  note h7 = t7 [THEN conjunct2, THEN conjunct1, THEN spec, THEN mp, OF hit]
  note t4 = resolve_message_cache_then_fetch [OF g, of 4 consts0]
  note f4 = t4 [THEN conjunct2, THEN conjunct2, THEN mp, OF miss4, THEN conjunct2,
                THEN spec, THEN mp, OF ch]
  note t5 = resolve_message_cache_then_fetch [OF g, of 5 consts0]
  note f5 = t5 [THEN conjunct2, THEN conjunct2, THEN mp, OF miss5, THEN conjunct2,
                THEN spec, THEN mp, OF ch]
  have a: "snd (resolve_message consts0 cog0 7) = Returned (Some report)"
    by (rule h7 [THEN conjunct1])
  have b: "Fetch_message 7 \<notin> set (fst (resolve_message consts0 cog0 7))"
    by (rule h7 [THEN conjunct2, THEN conjunct1, THEN spec])
  have d: "snd (resolve_message consts0 cog0 4) = Returned None"
    by (rule f4 [THEN conjunct2, THEN conjunct1, THEN spec, THEN mp, OF nf])
  have e: "snd (resolve_message consts0 cog0 5) = Returned (Some (report\<lparr>msg_id := 5\<rparr>))"
    by (rule f5 [THEN conjunct2, THEN conjunct2, THEN spec, THEN mp])
       (rule channel0_fields)
  have k: "snd (resolve_message (consts0\<lparr>Channels_incidents := 999\<rparr>) cog0 4) = Returned None"
    by (rule t9 [THEN conjunct2, THEN conjunct2, THEN mp, OF miss4, THEN conjunct1, THEN mp,
                 OF nc'])
  from g a b nf [THEN conjunct1] d e nc k show ?thesis by (intro conjI)
qed

text \<open>
  The two paths the claim does not speak of: a cancellation during the fetch propagates,
  and without guild readiness the coroutine never gets to the cache lookup.
\<close>

lemma resolve_message_cancelled:
  assumes "guild_available (self_bot self)" and "get_message (self_bot self) i = None"
    and "get_channel (self_bot self) (Channels_incidents c) = Some ch"
    and "fetch_message ch i = Inl CancelledError"
  shows "snd (resolve_message c self i) = Raised CancelledError"
  using assms by (simp add: resolve_message_def Let_def)

lemma resolve_message_stalls:
  "\<not> guild_available (self_bot self) \<Longrightarrow>
   resolve_message c self i = ([Wait_until_guild_available], Stalled)"
  by (simp add: resolve_message_def)

subsection \<open>The listener for new messages\<close>

lemma on_message_traces:
  "concat (map (\<lambda>m. fst (on_message c react self m)) ms)
   = concat (map (\<lambda>m. fst (add_signals c react m)) (filter (is_incident c) ms))"
  by (induction ms) (simp_all add: on_message_def)

text \<open>
  Claim C7. On a message that is an incident \<open>on_message\<close> is \<open>add_signals\<close> on that
  message; on any other message it does nothing: its trace is empty and the message is as
  it was. A call of \<open>add_signals\<close> always leaves a trace, so the trace of the listener
  is not empty exactly for incidents. Over a stream of messages, delivered whatever their
  channel, the traces of the listener are those of \<open>add_signals\<close> on the incidents of
  the stream, one call for each, in the order of the stream.
\<close>

theorem on_message_only_incidents:
  "(is_incident c m \<longrightarrow> on_message c react self m = add_signals c react m)
   \<and> (\<not> is_incident c m \<longrightarrow> on_message c react self m = ([], Returned m))
   \<and> (fst (on_message c react self m) \<noteq> [] \<longleftrightarrow> is_incident c m)
   \<and> concat (map (\<lambda>m. fst (on_message c react self m)) ms)
       = concat (map (\<lambda>m. fst (add_signals c react m)) (filter (is_incident c) ms))"
proof -
  have p1: "is_incident c m \<longrightarrow> on_message c react self m = add_signals c react m"
    by (simp add: on_message_def)
  have p2: "\<not> is_incident c m \<longrightarrow> on_message c react self m = ([], Returned m)"
    by (simp add: on_message_def)
  have p3: "fst (on_message c react self m) \<noteq> [] \<longleftrightarrow> is_incident c m"
    using add_signals_nonempty [of c react m] by (simp add: on_message_def)
  from p1 p2 p3 on_message_traces [of c react self ms] show ?thesis by (intro conjI)
qed

theorem on_message_only_incidents_witness:
  "is_incident consts0 report
   \<and> on_message consts0 reacting cog0 report = add_signals consts0 reacting report
   \<and> \<not> is_incident consts0 (report\<lparr>pinned := True\<rparr>)
   \<and> on_message consts0 reacting cog0 (report\<lparr>pinned := True\<rparr>)
       = ([], Returned (report\<lparr>pinned := True\<rparr>))"
proof -
  have n: "\<not> is_incident consts0 (report\<lparr>pinned := True\<rparr>)" by (simp add: is_incident_def)
  note t = on_message_only_incidents [of consts0 report reacting cog0 "[]"]
  note u = on_message_only_incidents [of consts0 "report\<lparr>pinned := True\<rparr>" reacting cog0 "[]"]
  from report_is_incident t [THEN conjunct1, THEN mp, OF report_is_incident] n
    u [THEN conjunct2, THEN conjunct1, THEN mp, OF n]
  show ?thesis by (intro conjI)
qed

text \<open>
  Claim C8. The listener does not read the cog's lock or its crawl task: whatever their
  state, also with the lock held and the crawl not finished, it does the same. It never
  waits: it does not stall, and its trace holds log records and add-reaction requests
  only. With the lock held it still runs \<open>add_signals\<close> on an incident.
\<close>

theorem on_message_ignores_event_lock:
  "on_message c react (self\<lparr>event_lock := l, crawl_task := t\<rparr>) m = on_message c react self m
   \<and> snd (on_message c react self m) \<noteq> Stalled
   \<and> (\<forall>ev\<in>set (fst (on_message c react self m)). is_Log ev \<or> is_Add_reaction ev)
   \<and> (is_incident c m \<longrightarrow>
        on_message c react (self\<lparr>event_lock := \<lparr>locked = True\<rparr>\<rparr>) m = add_signals c react m)"
proof -
  have p1: "on_message c react (self\<lparr>event_lock := l, crawl_task := t\<rparr>) m
            = on_message c react self m"
    by (simp add: on_message_def)
  have p2: "snd (on_message c react self m) \<noteq> Stalled"
    using add_signals_not_stalled [of c react m] by (simp add: on_message_def)
  have p3: "\<forall>ev\<in>set (fst (on_message c react self m)). is_Log ev \<or> is_Add_reaction ev"
    using add_signals_events [of _ c react m] by (simp add: on_message_def)
  have p4: "is_incident c m \<longrightarrow>
        on_message c react (self\<lparr>event_lock := \<lparr>locked = True\<rparr>\<rparr>) m = add_signals c react m"
    by (simp add: on_message_def)
  from p1 p2 p3 p4 show ?thesis by (intro conjI)
qed

theorem on_message_ignores_event_lock_witness:
  "is_incident consts0 report
   \<and> on_message consts0 reacting (cog0\<lparr>event_lock := \<lparr>locked = True\<rparr>\<rparr>) report
     = ([Log (Adding_reaction ACTIONED), Add_reaction 7 ''A'', Log (Skipping_emoji NOT_ACTIONED),
         Log (Adding_reaction INVESTIGATING), Add_reaction 7 ''I''], Returned report_signalled)"
proof -
  note t = on_message_ignores_event_lock
    [where c = consts0 and react = reacting and self = cog0 and m = report
       and l = "\<lparr>locked = True\<rparr>" and t = "crawl_task cog0"]
  note r = t [THEN conjunct2, THEN conjunct2, THEN conjunct2, THEN mp, OF report_is_incident]
  have "add_signals consts0 reacting report
     = ([Log (Adding_reaction ACTIONED), Add_reaction 7 ''A'', Log (Skipping_emoji NOT_ACTIONED),
         Log (Adding_reaction INVESTIGATING), Add_reaction 7 ''I''], Returned report_signalled)"
    by (simp add: add_signals_report report_signalled_def)
  with report_is_incident r show ?thesis by simp
qed

subsection \<open>The allowed roles\<close>

lemma Signal_value_cong:
  assumes "Emojis_incident_actioned c' = Emojis_incident_actioned c"
    and "Emojis_incident_unactioned c' = Emojis_incident_unactioned c"
    and "Emojis_incident_investigating c' = Emojis_incident_investigating c"
  shows "Signal_value c' = Signal_value c"
proof
  fix s show "Signal_value c' s = Signal_value c s" using assms by (cases s) simp_all
qed

lemma add_signals_loop_cong:
  "Signal_value c' = Signal_value c \<Longrightarrow>
   add_signals_loop c' react ex m ss = add_signals_loop c react ex m ss"
  by (induction ss arbitrary: m) (simp_all split: sum.split)

lemma crawl_loop_cong:
  assumes "is_incident c' = is_incident c" and "has_signals c' = has_signals c"
    and "add_signals c' = add_signals c"
  shows "crawl_loop c' = crawl_loop c"
proof (intro ext)
  fix react sl ms
  show "crawl_loop c' react sl ms = crawl_loop c react sl ms"
    using assms by (induction ms) simp_all
qed

lemma consts1_fields:
  "Channels_incidents consts1 = Channels_incidents consts0"
  "Emojis_incident_actioned consts1 = Emojis_incident_actioned consts0"
  "Emojis_incident_unactioned consts1 = Emojis_incident_unactioned consts0"
  "Emojis_incident_investigating consts1 = Emojis_incident_investigating consts0"
  by (simp_all add: consts1_def)

text \<open>
  Claim C9. Two sets of constants that agree on the incidents channel and on the three
  signal emoji, and differ only in the three role identifiers, give the same
  \<open>is_incident\<close>, the same allowed emoji and \<open>has_signals\<close>, and the same results and
  traces of \<open>add_signals\<close>, \<open>crawl_incidents\<close>, \<open>resolve_message\<close> and \<open>on_message\<close>.
  \<open>own_reactions\<close> takes no constants at all. \<open>ALLOWED_ROLES\<close> is the only definition
  that reads the role identifiers, and no operation reads \<open>ALLOWED_ROLES\<close>.
\<close>

theorem allowed_roles_never_read:
  assumes "Channels_incidents c' = Channels_incidents c"
    and "Emojis_incident_actioned c' = Emojis_incident_actioned c"
    and "Emojis_incident_unactioned c' = Emojis_incident_unactioned c"
    and "Emojis_incident_investigating c' = Emojis_incident_investigating c"
  shows "is_incident c' = is_incident c
   \<and> ALLOWED_EMOJI c' = ALLOWED_EMOJI c
   \<and> has_signals c' = has_signals c
   \<and> add_signals c' = add_signals c
   \<and> crawl_incidents c' = crawl_incidents c
   \<and> resolve_message c' = resolve_message c
   \<and> on_message c' = on_message c"
proof -
  have v: "Signal_value c' = Signal_value c"
    using assms(2-4) by (rule Signal_value_cong)
  have mem: "Signal_members c' = Signal_members c"
    by (simp add: Signal_members_def v)
  have p1: "is_incident c' = is_incident c"
    by (intro ext) (simp add: is_incident_def assms(1))
  have p2: "ALLOWED_EMOJI c' = ALLOWED_EMOJI c"
    by (simp add: ALLOWED_EMOJI_def v mem)
  have p3: "has_signals c' = has_signals c"
    by (intro ext) (simp add: has_signals_def p2)
  have p4: "add_signals c' = add_signals c"
    by (intro ext) (simp add: add_signals_def mem add_signals_loop_cong [OF v])
  have p5: "crawl_incidents c' = crawl_incidents c"
    unfolding crawl_incidents_def assms(1) crawl_loop_cong [OF p1 p3 p4] by (rule refl)
  have p6: "resolve_message c' = resolve_message c"
    unfolding resolve_message_def assms(1) by (rule refl)
  have p7: "on_message c' = on_message c"
    by (intro ext) (simp add: on_message_def p1 p4)
  from p1 p2 p3 p4 p5 p6 p7 show ?thesis by (intro conjI)
qed

theorem allowed_roles_never_read_witness:
  "ALLOWED_ROLES consts1 = {10, 20, 30} \<and> ALLOWED_ROLES consts0 = {1, 2, 3}
   \<and> is_incident consts1 = is_incident consts0
   \<and> has_signals consts1 = has_signals consts0
   \<and> add_signals consts1 = add_signals consts0
   \<and> crawl_incidents consts1 = crawl_incidents consts0
   \<and> resolve_message consts1 = resolve_message consts0
   \<and> on_message consts1 = on_message consts0"
proof -
  note t = allowed_roles_never_read [OF consts1_fields]
  have a: "ALLOWED_ROLES consts1 = {10, 20, 30}"
    by (simp add: ALLOWED_ROLES_def consts1_def)
  have b: "ALLOWED_ROLES consts0 = {1, 2, 3}"
    by (simp add: ALLOWED_ROLES_def consts0_def)
  from a b t [THEN conjunct1] t [THEN conjunct2, THEN conjunct2, THEN conjunct1]
    t [THEN conjunct2, THEN conjunct2, THEN conjunct2, THEN conjunct1]
    t [THEN conjunct2, THEN conjunct2, THEN conjunct2, THEN conjunct2, THEN conjunct1]
    t [THEN conjunct2, THEN conjunct2, THEN conjunct2, THEN conjunct2, THEN conjunct2,
       THEN conjunct1]
    t [THEN conjunct2, THEN conjunct2, THEN conjunct2, THEN conjunct2, THEN conjunct2,
       THEN conjunct2]
  show ?thesis by (intro conjI)
qed

subsection \<open>Messages without text\<close>

lemma add_signals_gives_all:
  assumes "records_own_reaction react" and "snd (add_signals c react m) = Returned m'"
  shows "has_signals c m'"
proof -
  from assms(2)
  have "snd (add_signals_loop c react (own_reactions m) m (Signal_members c)) = Returned m'"
    by (simp add: add_signals_def)
  from loop_records [OF assms(1) this]
  have "\<forall>s\<in>set (Signal_members c). Signal_value c s \<in> own_reactions m'" by blast
  then have "ALLOWED_EMOJI c \<subseteq> own_reactions m'"
    by (auto simp: ALLOWED_EMOJI_def)
  then show ?thesis by (simp add: has_signals_def)
qed

lemma add_signals_fresh_requests:
  assumes "distinct [Emojis_incident_actioned c, Emojis_incident_unactioned c,
                     Emojis_incident_investigating c]"
    and "own_reactions m = {}" and "snd (add_signals c react m) = Returned m'"
  shows "filter is_Add_reaction (fst (add_signals c react m))
     = [Add_reaction (msg_id m) (Emojis_incident_actioned c),
        Add_reaction (msg_id m) (Emojis_incident_unactioned c),
        Add_reaction (msg_id m) (Emojis_incident_investigating c)]"
proof -
  have run: "add_signals c react m
     = add_signals_loop c react {} m [ACTIONED, NOT_ACTIONED, INVESTIGATING]"
    by (simp add: add_signals_def Signal_members_three [OF assms(1)] assms(2))
  from assms(3)
  have "fst (add_signals_loop c react {} m [ACTIONED, NOT_ACTIONED, INVESTIGATING])
     = concat (map (spec_signal_step c {} (msg_id m)) [ACTIONED, NOT_ACTIONED, INVESTIGATING])"
    unfolding run by (rule loop_trace_returned)
  then show ?thesis unfolding run by (simp add: spec_signal_step_def)
qed

lemma attachment_only_fields:
  "msg_id attachment_only = 8" "channel_id attachment_only = 100"
  "\<not> author_bot attachment_only" "content attachment_only = []" "\<not> pinned attachment_only"
  "reactions attachment_only = []"
  by (simp_all add: attachment_only_def)

text \<open>
  Claim C10. A message with empty content, sent in the incidents channel by an author
  that is not a bot, and not pinned, is an incident: the empty string does not start
  with \<open>#\<close>. The listener therefore runs \<open>add_signals\<close> on it. When every request
  completes and records the bot's reaction, the message ends up with all the signals;
  when it had no reaction of the bot and the three emoji are different, the requests are
  the three signal emoji in order.
\<close>

theorem empty_content_is_incident:
  assumes "channel_id m = Channels_incidents c" and "\<not> author_bot m" and "\<not> pinned m"
    and "content m = []"
  shows "is_incident c m
   \<and> on_message c react self m = add_signals c react m
   \<and> (records_own_reaction react \<and> always_completes react \<longrightarrow>
        (\<exists>m'. snd (on_message c react self m) = Returned m' \<and> has_signals c m'))
   \<and> (always_completes react \<and> own_reactions m = {}
        \<and> distinct [Emojis_incident_actioned c, Emojis_incident_unactioned c,
                     Emojis_incident_investigating c] \<longrightarrow>
        filter is_Add_reaction (fst (on_message c react self m))
          = [Add_reaction (msg_id m) (Emojis_incident_actioned c),
             Add_reaction (msg_id m) (Emojis_incident_unactioned c),
             Add_reaction (msg_id m) (Emojis_incident_investigating c)])"
proof -
  have p1: "is_incident c m"
    using assms by (simp add: is_incident_def startswith_def)
  have p2: "on_message c react self m = add_signals c react m"
    using p1 by (simp add: on_message_def)
  have p3: "records_own_reaction react \<and> always_completes react \<longrightarrow>
        (\<exists>m'. snd (on_message c react self m) = Returned m' \<and> has_signals c m')"
  proof
    assume a: "records_own_reaction react \<and> always_completes react"
    then obtain m' where r: "snd (add_signals c react m) = Returned m'"
      using add_signals_completes [of react c m] by blast
    from a r have "has_signals c m'" by (blast intro: add_signals_gives_all)
    with r show "\<exists>m'. snd (on_message c react self m) = Returned m' \<and> has_signals c m'"
      unfolding p2 by blast
  qed
  have p4: "always_completes react \<and> own_reactions m = {}
        \<and> distinct [Emojis_incident_actioned c, Emojis_incident_unactioned c,
                     Emojis_incident_investigating c] \<longrightarrow>
        filter is_Add_reaction (fst (on_message c react self m))
          = [Add_reaction (msg_id m) (Emojis_incident_actioned c),
             Add_reaction (msg_id m) (Emojis_incident_unactioned c),
             Add_reaction (msg_id m) (Emojis_incident_investigating c)]"
  proof
    assume a: "always_completes react \<and> own_reactions m = {}
        \<and> distinct [Emojis_incident_actioned c, Emojis_incident_unactioned c,
                     Emojis_incident_investigating c]"
    then obtain m' where r: "snd (add_signals c react m) = Returned m'"
      using add_signals_completes [of react c m] by blast
    from a have d: "distinct [Emojis_incident_actioned c, Emojis_incident_unactioned c,
                     Emojis_incident_investigating c]" and e: "own_reactions m = {}"
      by blast+
    show "filter is_Add_reaction (fst (on_message c react self m))
          = [Add_reaction (msg_id m) (Emojis_incident_actioned c),
             Add_reaction (msg_id m) (Emojis_incident_unactioned c),
             Add_reaction (msg_id m) (Emojis_incident_investigating c)]"
      unfolding p2 by (rule add_signals_fresh_requests [OF d e r])
  qed
  from p1 p2 p3 p4 show ?thesis by (intro conjI)
qed

theorem empty_content_is_incident_witness:
  "channel_id attachment_only = Channels_incidents consts0
   \<and> \<not> author_bot attachment_only \<and> \<not> pinned attachment_only \<and> content attachment_only = []
   \<and> is_incident consts0 attachment_only
   \<and> filter is_Add_reaction (fst (on_message consts0 reacting cog0 attachment_only))
       = [Add_reaction 8 ''A'', Add_reaction 8 ''U'', Add_reaction 8 ''I'']
   \<and> (\<exists>m'. snd (on_message consts0 reacting cog0 attachment_only) = Returned m'
            \<and> has_signals consts0 m')"
proof -
  have a: "channel_id attachment_only = Channels_incidents consts0"
    by (simp add: attachment_only_fields consts0_fields)
  note f = attachment_only_fields
  note t = empty_content_is_incident [OF a f(3) f(5) f(4), of reacting cog0]
  have own: "own_reactions attachment_only = {}"
    by (simp add: own_reactions_def f)
  have h3: "records_own_reaction reacting \<and> always_completes reacting"
    using reacting_records reacting_completes by (intro conjI)
  have h4: "always_completes reacting \<and> own_reactions attachment_only = {}
        \<and> distinct [Emojis_incident_actioned consts0, Emojis_incident_unactioned consts0,
                     Emojis_incident_investigating consts0]"
    using reacting_completes own consts0_distinct by (intro conjI)
  note r3 = t [THEN conjunct2, THEN conjunct2, THEN conjunct1, THEN mp, OF h3]
  note r4 = t [THEN conjunct2, THEN conjunct2, THEN conjunct2, THEN mp, OF h4]
  have r4': "filter is_Add_reaction (fst (on_message consts0 reacting cog0 attachment_only))
       = [Add_reaction 8 ''A'', Add_reaction 8 ''U'', Add_reaction 8 ''I'']"
    using r4 by (simp add: f consts0_fields)
  from a f(3) f(5) f(4) t [THEN conjunct1] r4' r3 show ?thesis by (intro conjI)
qed

end
